theory Spec2Isabelle
  imports Main
begin

section \<open>Go values used by the program\<close>

text \<open>
  A Go map value is either the nil map or an allocated table. Reading a nil map gives
  the zero value with \<open>ok = false\<close>; assigning into a nil map panics. A pointer is
  either nil or refers to a value; reading a field through a nil pointer panics. Both
  can reach the tracker through a decoded state file, so both are part of the model.
\<close>

datatype ('k, 'v) gomap = NilMap | GoMap "'k \<rightharpoonup> 'v"

datatype 'a ptr = NilPtr | Ref 'a

datatype panic = NilPointerDereference | NilMapAssignment

fun lookup :: "('k, 'v) gomap \<Rightarrow> 'k \<Rightarrow> 'v option" where
  "lookup NilMap k = None"
| "lookup (GoMap m) k = m k"

datatype error =
    ErrNotExist | ErrRead
  | ErrMkdir | ErrMarshal | ErrWriteTmp | ErrRename
  | ErrDeadline | ErrSendCommand | ErrClosed | ErrServer string | ErrReadLine

section \<open>internal/state/tracker.go\<close>

text \<open>
  \<open>MailboxState\<close>, \<open>StateData\<close> and \<open>Tracker\<close> are the structs of the source. The
  mutex of \<open>Tracker\<close> is left out: every method holds it from entry to exit and the
  program is sequential. A \<open>*MailboxState\<close> stored in the map is never shared between
  two keys (each is allocated by \<open>MarkFetched\<close>, \<open>MarkBatchFetched\<close> or the decoder),
  so updating the pointee is updating the entry.
\<close>

record MailboxState =
  FetchedUIDs :: "(string, bool) gomap"

record StateData =
  Mailboxes :: "(string, MailboxState ptr) gomap"

record Tracker =
  filePath :: string
  data :: StateData

text \<open>
  File contents are kept as \<open>encoding/json\<close> sees them: \<open>json.Unmarshal\<close> into a
  \<open>StateData\<close> either fails (\<open>Undecodable\<close>, carrying the raw bytes) or yields a
  \<open>StateData\<close> (\<open>Document\<close>), whose \<open>Mailboxes\<close> is nil when the key is absent or
  null. \<open>json.MarshalIndent\<close> of a \<open>StateData\<close> writes a document that decodes to the
  same value (the library's round trip for maps of valid UTF-8 strings and booleans).
  The file system is a map from paths to contents.
\<close>

datatype content = Undecodable string | Document StateData

type_synonym fs = "string \<rightharpoonup> content"

text \<open>
  The steps of \<open>save\<close> that can fail, chosen by the environment for one call:
  \<open>os.MkdirAll\<close>, \<open>json.MarshalIndent\<close>, \<open>os.WriteFile\<close> (which may leave anything,
  or nothing, under the temporary name) and \<open>os.Rename\<close>.
\<close>

datatype fault = NoFault | MkdirFault | MarshalFault | WriteFault "content option" | RenameFault

definition os_WriteFile :: "string \<Rightarrow> content \<Rightarrow> fs \<Rightarrow> fs" where
  "os_WriteFile name c files = files(name \<mapsto> c)"

definition os_Rename :: "string \<Rightarrow> string \<Rightarrow> fs \<Rightarrow> fs" where
  "os_Rename oldpath newpath files =
     (if oldpath = newpath then files else (files(newpath := files oldpath))(oldpath := None))"

definition emptyTracker :: "string \<Rightarrow> Tracker" where
  "emptyTracker path = \<lparr>filePath = path, data = \<lparr>Mailboxes = GoMap Map.empty\<rparr>\<rparr>"



definition IsFetched :: "Tracker \<Rightarrow> string \<Rightarrow> string \<Rightarrow> panic + bool" where
  "IsFetched t mailbox uid =
     (case lookup (Mailboxes (data t)) mailbox of
        None \<Rightarrow> Inr False
      | Some NilPtr \<Rightarrow> Inl NilPointerDereference
      | Some (Ref ms) \<Rightarrow>
          (case lookup (FetchedUIDs ms) uid of None \<Rightarrow> Inr False | Some b \<Rightarrow> Inr b))"

definition save :: "Tracker \<Rightarrow> fault \<Rightarrow> fs \<Rightarrow> error option \<times> fs" where
  "save t f files =
     (case f of
        MkdirFault \<Rightarrow> (Some ErrMkdir, files)
      | MarshalFault \<Rightarrow> (Some ErrMarshal, files)
      | WriteFault left \<Rightarrow> (Some ErrWriteTmp, files(filePath t @ ''.tmp'' := left))
      | RenameFault \<Rightarrow>
          (Some ErrRename, os_WriteFile (filePath t @ ''.tmp'') (Document (data t)) files)
      | NoFault \<Rightarrow>
          (None, os_Rename (filePath t @ ''.tmp'') (filePath t)
                   (os_WriteFile (filePath t @ ''.tmp'') (Document (data t)) files)))"

text \<open>
  The entry of the mailbox that \<open>MarkFetched\<close> and \<open>MarkBatchFetched\<close> write into:
  a fresh \<open>MailboxState\<close> stored under the key when the key is missing (a panic when
  \<open>Mailboxes\<close> itself is nil), the stored one otherwise.
\<close>

definition mailboxEntry ::
  "Tracker \<Rightarrow> string \<Rightarrow> panic + ((string \<rightharpoonup> MailboxState ptr) \<times> MailboxState ptr)" where
  "mailboxEntry t mailbox =
     (case Mailboxes (data t) of
        NilMap \<Rightarrow> Inl NilMapAssignment
      | GoMap mb \<Rightarrow>
          (case mb mailbox of
             None \<Rightarrow>
               Inr (mb(mailbox \<mapsto> Ref \<lparr>FetchedUIDs = GoMap Map.empty\<rparr>),
                    Ref \<lparr>FetchedUIDs = GoMap Map.empty\<rparr>)
           | Some p \<Rightarrow> Inr (mb, p)))"

text \<open>\<open>ms.FetchedUIDs[uid] = true\<close> through the pointer \<open>ms\<close>.\<close>

definition setFetched :: "MailboxState ptr \<Rightarrow> string \<Rightarrow> panic + MailboxState ptr" where
  "setFetched p uid =
     (case p of
        NilPtr \<Rightarrow> Inl NilPointerDereference
      | Ref ms \<Rightarrow>
          (case FetchedUIDs ms of
             NilMap \<Rightarrow> Inl NilMapAssignment
           | GoMap u \<Rightarrow> Inr (Ref (ms\<lparr>FetchedUIDs := GoMap (u(uid \<mapsto> True))\<rparr>))))"


text \<open>
  A call returns the error of \<open>save\<close> (\<open>None\<close> is nil) with the tracker and the file
  system as the call leaves them, or panics. The tracker is changed before \<open>save\<close> runs
  and is not restored when \<open>save\<close> fails.
\<close>

definition MarkFetched ::
  "Tracker \<Rightarrow> string \<Rightarrow> string \<Rightarrow> fault \<Rightarrow> fs \<Rightarrow> panic + (error option \<times> Tracker \<times> fs)" where
  "MarkFetched t mailbox uid f files =
     (case mailboxEntry t mailbox of
        Inl e \<Rightarrow> Inl e
      | Inr (mb, p) \<Rightarrow>
          (case setFetched p uid of
             Inl e \<Rightarrow> Inl e
           | Inr p' \<Rightarrow>
               (let t' = t\<lparr>data := \<lparr>Mailboxes = GoMap (mb(mailbox \<mapsto> p'))\<rparr>\<rparr>
                in case save t' f files of (err, files') \<Rightarrow> Inr (err, t', files'))))"


section \<open>internal/pop3/client.go\<close>

text \<open>
  A \<open>Client\<close> is the connection with its buffered reader. \<open>inbound\<close> holds the bytes the
  server sends that have not been read yet; when they run out, a read fails (the peer
  closed the connection or the deadline passed). \<open>sent\<close> collects the bytes written.
  \<open>deadline_fails\<close> and \<open>write_fails\<close> say whether \<open>SetDeadline\<close> and the write of a
  command fail on this connection.
\<close>

record Client =
  inbound :: string
  sent :: string
  deadline_fails :: bool
  write_fails :: bool
  closed :: bool

definition LF :: char where
  "LF = CHR 0x0A"

definition CR :: char where
  "CR = CHR 0x0D"

definition crlf :: string where
  "crlf = [CR, LF]"

text \<open>
  \<open>bufio.Reader.ReadString('\n')\<close>: the bytes up to and including the first line feed,
  and what is left; \<open>None\<close> when the input ends before a line feed (the callers drop
  the partial data when the error is not nil).
\<close>

fun ReadString :: "string \<Rightarrow> (string \<times> string) option" where
  "ReadString [] = None"
| "ReadString (c # cs) =
     (if c = LF then Some ([c], cs)
      else (case ReadString cs of None \<Rightarrow> None | Some (line, rest) \<Rightarrow> Some (c # line, rest)))"

text \<open>\<open>strings.TrimRight\<close> and \<open>strings.HasPrefix\<close>.\<close>

definition TrimRight :: "string \<Rightarrow> string \<Rightarrow> string" where
  "TrimRight s cutset = rev (dropWhile (\<lambda>c. c \<in> set cutset) (rev s))"

definition HasPrefix :: "string \<Rightarrow> string \<Rightarrow> bool" where
  "HasPrefix s p = (take (length p) s = p)"

text \<open>\<open>%d\<close> of \<open>fmt.Sprintf\<close>: the decimal digits of an integer.\<close>

fun digits :: "nat \<Rightarrow> string" where
  "digits n =
     (if n < 10 then [char_of (48 + n)] else digits (n div 10) @ [char_of (48 + n mod 10)])"

declare digits.simps [simp del]

definition Itoa :: "int \<Rightarrow> string" where
  "Itoa i = (if i < 0 then CHR ''-'' # digits (nat (- i)) else digits (nat i))"

definition readResponse :: "Client \<Rightarrow> (error + string) \<times> Client" where
  "readResponse c =
     (case ReadString (inbound c) of
        None \<Rightarrow> (Inl ErrClosed, c\<lparr>inbound := []\<rparr>)
      | Some (line, rest) \<Rightarrow>
          (let line' = TrimRight line crlf; c' = c\<lparr>inbound := rest\<rparr>
           in if HasPrefix line' ''+OK'' then (Inr line', c')
              else if HasPrefix line' ''-ERR'' then (Inl (ErrServer line'), c')
              else (Inr line', c')))"

definition command :: "Client \<Rightarrow> string \<Rightarrow> (error + string) \<times> Client" where
  "command c cmd =
     (if deadline_fails c then (Inl ErrDeadline, c)
      else if write_fails c then (Inl ErrSendCommand, c)
      else readResponse (c\<lparr>sent := sent c @ cmd @ crlf\<rparr>))"

text \<open>
  The loop of \<open>Retrieve\<close> over the unread input, with the builder \<open>buf\<close>. It returns the
  bytes built and the input left after the terminating line.
\<close>

function retrieveLoop :: "string \<Rightarrow> string \<Rightarrow> error + (string \<times> string)" where
  "retrieveLoop inb buf =
     (case ReadString inb of
        None \<Rightarrow> Inl ErrReadLine
      | Some (line, rest) \<Rightarrow>
          (let trimmed = TrimRight line crlf
           in if trimmed = ''.'' then Inr (buf, rest)
              else retrieveLoop rest
                     (buf @ (if HasPrefix trimmed ''..'' then drop 1 line else line))))"
  by pat_completeness auto
termination
proof (relation "measure (\<lambda>(inb, buf). length inb)")
  show "wf (measure (\<lambda>(inb, buf). length inb))"
    by simp
next
  fix inb buf :: string and x2 line rest trimmed
  assume "ReadString inb = Some x2" and "(line, rest) = x2"
  then have r: "ReadString inb = Some (line, rest)"
    by simp
  have "length r < length i" if "ReadString i = Some (l, r)" for i l r
    using that
    by (induction i arbitrary: l) (auto split: if_splits option.splits)
  from this [OF r]
  show "((rest, buf @ (if HasPrefix trimmed ''..'' then drop 1 line else line)), (inb, buf))
          \<in> measure (\<lambda>(inb, buf). length inb)"
    by simp
qed

declare retrieveLoop.simps [simp del]

definition Retrieve :: "Client \<Rightarrow> int \<Rightarrow> (error + string) \<times> Client" where
  "Retrieve c msgNum =
     (case command c (''RETR '' @ Itoa msgNum) of
        (Inl err, c') \<Rightarrow> (Inl err, c')
      | (Inr resp, c') \<Rightarrow>
          (case retrieveLoop (inbound c') [] of
             Inl err \<Rightarrow> (Inl err, c'\<lparr>inbound := []\<rparr>)
           | Inr (buf, rest) \<Rightarrow> (Inr buf, c'\<lparr>inbound := rest\<rparr>)))"

definition Delete :: "Client \<Rightarrow> int \<Rightarrow> error option \<times> Client" where
  "Delete c msgNum =
     (case command c (''DELE '' @ Itoa msgNum) of
        (Inl err, c') \<Rightarrow> (Some err, c')
      | (Inr resp, c') \<Rightarrow> (None, c'))"

text \<open>
  \<open>Quit\<close> sends \<open>QUIT\<close>, ignores what \<open>command\<close> returns, and closes the connection;
  \<open>Close\<close> only closes it.
\<close>

definition Quit :: "Client \<Rightarrow> Client" where
  "Quit c = (snd (command c ''QUIT''))\<lparr>closed := True\<rparr>"

definition Close :: "Client \<Rightarrow> Client" where
  "Close c = c\<lparr>closed := True\<rparr>"

text \<open>
  What the specification says a fetched line becomes, written from its words: a line
  beginning with a doubled terminator character loses exactly one leading terminator
  character; any other line is kept as it is.
\<close>

definition unstuffed :: "string \<Rightarrow> string" where
  "unstuffed l =
     (case l of
        a # b # r \<Rightarrow> if a = CHR ''.'' \<and> b = CHR ''.'' then b # r else l
      | _ \<Rightarrow> l)"

section \<open>internal/smtp/sender.go\<close>

record Sender =
  host :: string
  port :: int
  username :: string
  password :: string
  to :: string

definition NewSender :: "string \<Rightarrow> int \<Rightarrow> string \<Rightarrow> string \<Rightarrow> string \<Rightarrow> Sender" where
  "NewSender h p u pw t = \<lparr>host = h, port = p, username = u, password = pw, to = t\<rparr>"

text \<open>
  \<open>mail.ReadMessage\<close> belongs to the standard library. Its result is a \<open>Message\<close>: the
  header, a Go map from canonical field names to the values of that name in the order of
  their lines, and the body. \<open>Send\<close> receives the result of parsing as an argument.

  The header map is built by \<open>net/textproto\<close> from the header lines in order: each line
  appends its value to the entry of its canonical name. \<open>CanonicalMIMEHeaderKey\<close> makes
  the first letter and every letter after a hyphen upper case and the other letters
  lower case, and leaves a name with a byte outside the token characters as it is.
\<close>

record Message =
  Header :: "string \<rightharpoonup> string list"
  Body :: string

definition between :: "char \<Rightarrow> char \<Rightarrow> char \<Rightarrow> bool" where
  "between lo hi c = ((of_char lo :: nat) \<le> of_char c \<and> (of_char c :: nat) \<le> of_char hi)"

definition validHeaderFieldByte :: "char \<Rightarrow> bool" where
  "validHeaderFieldByte c =
     (between CHR ''0'' CHR ''9'' c \<or> between CHR ''a'' CHR ''z'' c \<or>
      between CHR ''A'' CHR ''Z'' c \<or>
      c \<in> set [CHR ''!'', CHR ''#'', CHR ''$'', CHR ''%'', CHR ''&'', CHR 0x27, CHR ''*'',
                CHR ''+'', CHR ''-'', CHR ''.'', CHR ''^'', CHR ''_'', CHR 0x60, CHR ''|'',
                CHR ''~''])"

fun canonicalCase :: "bool \<Rightarrow> string \<Rightarrow> string" where
  "canonicalCase upper [] = []"
| "canonicalCase upper (c # cs) =
     (let c' = (if upper \<and> between CHR ''a'' CHR ''z'' c then char_of (of_char c - (32::nat))
                else if \<not> upper \<and> between CHR ''A'' CHR ''Z'' c then char_of (of_char c + (32::nat))
                else c)
      in c' # canonicalCase (c' = CHR ''-'') cs)"

definition CanonicalMIMEHeaderKey :: "string \<Rightarrow> string" where
  "CanonicalMIMEHeaderKey s =
     (if \<forall>c \<in> set s. validHeaderFieldByte c then canonicalCase True s else s)"

definition addField :: "(string \<rightharpoonup> string list) \<Rightarrow> string \<times> string \<Rightarrow> (string \<rightharpoonup> string list)" where
  "addField h f =
     (let key = CanonicalMIMEHeaderKey (fst f)
      in h(key \<mapsto> (case h key of None \<Rightarrow> [] | Some vs \<Rightarrow> vs) @ [snd f]))"

definition headerOfFields :: "(string \<times> string) list \<Rightarrow> (string \<rightharpoonup> string list)" where
  "headerOfFields flds = foldl addField Map.empty flds"

text \<open>\<open>Header.Get\<close>: the first value under the canonical form of the key, or the empty string.\<close>

definition Get :: "(string \<rightharpoonup> string list) \<Rightarrow> string \<Rightarrow> string" where
  "Get h key =
     (case h (CanonicalMIMEHeaderKey key) of
        None \<Rightarrow> []
      | Some [] \<Rightarrow> []
      | Some (v # vs) \<Rightarrow> v)"

definition handled :: "string \<Rightarrow> bool" where
  "handled key =
     (key \<in> set [''From'', ''To'', ''Subject'', ''Date'', ''Message-Id'', ''Cc'', ''Reply-To'',
                  ''Content-Type'', ''Content-Transfer-Encoding'', ''Mime-Version''])"

text \<open>
  Every \<open>fmt.Fprintf(&buf, "%s: %s\r\n", name, value)\<close> of \<open>Send\<close> writes one header
  line. \<open>forwardHeaders\<close> lists the names and values written, in the order of the
  statements. The loop over \<open>msg.Header\<close> visits the keys of a Go map, in an order the
  language leaves open and the runtime varies from one loop to the next: \<open>order\<close> is the
  order of that visit, a list of the keys of the map without repetition.
\<close>

definition opt :: "string \<Rightarrow> string \<Rightarrow> (string \<times> string) list" where
  "opt name v = (if v \<noteq> [] then [(name, v)] else [])"

definition remaining :: "(string \<rightharpoonup> string list) \<Rightarrow> string list \<Rightarrow> (string \<times> string) list" where
  "remaining h order =
     concat (map (\<lambda>key. if handled key then []
                          else map (\<lambda>v. (key, v)) (case h key of None \<Rightarrow> [] | Some vs \<Rightarrow> vs))
                 order)"

definition forwardHeaders :: "Sender \<Rightarrow> string \<Rightarrow> Message \<Rightarrow> string list \<Rightarrow> (string \<times> string) list" where
  "forwardHeaders s originalFrom msg order =
     (let origFrom = Get (Header msg) ''From'';
          origDate = Get (Header msg) ''Date'';
          origSubject = Get (Header msg) ''Subject'';
          origMessageID = Get (Header msg) ''Message-Id'';
          origTo = Get (Header msg) ''To'';
          origCc = Get (Header msg) ''Cc'';
          origReplyTo = Get (Header msg) ''Reply-To'';
          contentType = Get (Header msg) ''Content-Type'';
          contentTransferEncoding = Get (Header msg) ''Content-Transfer-Encoding'';
          mimeVersion = Get (Header msg) ''MIME-Version''
      in [(''From'', to s), (''To'', to s)]
         @ opt ''Subject'' origSubject
         @ opt ''Date'' origDate
         @ (if origFrom \<noteq> [] then [(''X-Original-From'', origFrom), (''Resent-From'', origFrom)]
            else [])
         @ opt ''X-Original-To'' origTo
         @ opt ''X-Original-Cc'' origCc
         @ (if origReplyTo \<noteq> [] then [(''Reply-To'', origReplyTo)]
            else if origFrom \<noteq> [] then [(''Reply-To'', origFrom)]
            else [])
         @ opt ''X-Original-Message-Id'' origMessageID
         @ [(''X-YaToGm-Source'', originalFrom), (''X-Mailer'', ''YaToGm/1.0'')]
         @ opt ''MIME-Version'' mimeVersion
         @ opt ''Content-Type'' contentType
         @ opt ''Content-Transfer-Encoding'' contentTransferEncoding
         @ remaining (Header msg) order)"

definition headerLine :: "string \<times> string \<Rightarrow> string" where
  "headerLine f = fst f @ '': '' @ snd f @ crlf"

text \<open>The bytes \<open>Send\<close> hands to \<open>sendBytes\<close> for a parsed message, and those of \<open>sendRaw\<close>.\<close>

definition forwardBytes :: "Sender \<Rightarrow> string \<Rightarrow> Message \<Rightarrow> string list \<Rightarrow> string" where
  "forwardBytes s originalFrom msg order =
     concat (map headerLine (forwardHeaders s originalFrom msg order)) @ crlf @ Body msg"

definition rawBytes :: "string \<Rightarrow> string \<Rightarrow> string" where
  "rawBytes rawEmail originalFrom =
     headerLine (''X-YaToGm-Source'', originalFrom)
     @ ''X-YaToGm-Note: original message could not be parsed'' @ crlf
     @ rawEmail"

text \<open>
  \<open>sendBytes\<close> delivers through \<open>net/smtp.SendMail\<close>; \<open>smtp\<close> is what that call returns
  for the bytes (\<open>True\<close> for nil).
\<close>

datatype send_error = ErrSmtpSend

definition sendBytes :: "Sender \<Rightarrow> (string \<Rightarrow> bool) \<Rightarrow> string \<Rightarrow> send_error option" where
  "sendBytes s smtp bytes = (if smtp bytes then None else Some ErrSmtpSend)"

definition Send ::
  "Sender \<Rightarrow> (string \<Rightarrow> bool) \<Rightarrow> string list \<Rightarrow> Message option \<Rightarrow> string \<Rightarrow> string
     \<Rightarrow> send_error option" where
  "Send s smtp order parsed rawEmail originalFrom =
     (case parsed of
        None \<Rightarrow> sendBytes s smtp (rawBytes rawEmail originalFrom)
      | Some msg \<Rightarrow> sendBytes s smtp (forwardBytes s originalFrom msg order))"

section \<open>internal/worker\<close>

record YahooMailbox =
  Email :: string
  AppPassword :: string
  POP3Host :: string
  POP3Port :: int

text \<open>
  What one call of \<open>processMailbox\<close> meets outside the program: whether \<open>pop3.Dial\<close> and
  \<open>Login\<close> succeed, what \<open>UIDList\<close> returns (\<open>None\<close> for an error, otherwise the map
  from message numbers to UIDs, given by an association list whose first pair of a key
  counts), and, for the message with a given number, whether \<open>Retrieve\<close>, \<open>sender.Send\<close>
  and \<open>Delete\<close> succeed and which step of \<open>save\<close> fails when the message is recorded.
  A message number is visited at most once in a call, so the outcomes can be indexed by it.
\<close>

record env =
  dial_ok :: bool
  login_ok :: bool
  uidl :: "(int \<times> string) list option"
  retr_ok :: "int \<Rightarrow> bool"
  send_ok :: "int \<Rightarrow> bool"
  save_fault :: "int \<Rightarrow> fault"
  dele_ok :: "int \<Rightarrow> bool"

text \<open>
  The calls the worker makes, in order, each with the message number it is made for and
  what it returned. For \<open>IsFetched\<close> and \<open>MarkFetched\<close> the outcome is a panic or a
  boolean (\<open>MarkFetched\<close>: \<open>True\<close> when it returned nil). \<open>EvQuit\<close> is the deferred
  \<open>client.Quit()\<close>.
\<close>

datatype event =
    EvDial bool
  | EvLogin bool
  | EvUIDList bool
  | EvIsFetched int string "panic + bool"
  | EvRetrieve int bool
  | EvSend int bool
  | EvMarkFetched int string "panic + bool"
  | EvDelete int bool
  | EvQuit

text \<open>
  The state of a call: the tracker and the file system it persists to, the named results
  \<open>fetched\<close> and \<open>errors\<close>, the calls made so far, and the panic that ended the call,
  if any.
\<close>

record run =
  run_tracker :: Tracker
  run_files :: fs
  run_fetched :: nat
  run_errors :: nat
  run_trace :: "event list"
  run_panic :: "panic option"

text \<open>\<open>uidMap[msgNum]\<close>: the value under the key, the empty string when the key is missing.\<close>

definition uidOf :: "(int \<rightharpoonup> string) \<Rightarrow> int \<Rightarrow> string" where
  "uidOf uidMap msgNum = (case uidMap msgNum of None \<Rightarrow> [] | Some u \<Rightarrow> u)"

text \<open>The body of the loop over \<open>msgNums\<close>, for one message number.\<close>

definition processMessage :: "env \<Rightarrow> string \<Rightarrow> (int \<rightharpoonup> string) \<Rightarrow> int \<Rightarrow> run \<Rightarrow> run" where
  "processMessage e email uidMap msgNum st =
     (let uid = uidOf uidMap msgNum
      in case IsFetched (run_tracker st) email uid of
           Inl p \<Rightarrow>
             st\<lparr>run_trace := run_trace st @ [EvIsFetched msgNum uid (Inl p)],
                run_panic := Some p\<rparr>
         | Inr skip \<Rightarrow>
             if skip then st\<lparr>run_trace := run_trace st @ [EvIsFetched msgNum uid (Inr True)]\<rparr>
             else if \<not> retr_ok e msgNum then
               st\<lparr>run_errors := run_errors st + 1,
                  run_trace := run_trace st
                    @ [EvIsFetched msgNum uid (Inr False), EvRetrieve msgNum False]\<rparr>
             else if \<not> send_ok e msgNum then
               st\<lparr>run_errors := run_errors st + 1,
                  run_trace := run_trace st
                    @ [EvIsFetched msgNum uid (Inr False), EvRetrieve msgNum True,
                       EvSend msgNum False]\<rparr>
             else
               (case MarkFetched (run_tracker st) email uid (save_fault e msgNum) (run_files st) of
                  Inl p \<Rightarrow>
                    st\<lparr>run_trace := run_trace st
                         @ [EvIsFetched msgNum uid (Inr False), EvRetrieve msgNum True,
                            EvSend msgNum True, EvMarkFetched msgNum uid (Inl p)],
                       run_panic := Some p\<rparr>
                | Inr (Some err, t', files') \<Rightarrow>
                    st\<lparr>run_tracker := t', run_files := files',
                       run_errors := run_errors st + 1,
                       run_trace := run_trace st
                         @ [EvIsFetched msgNum uid (Inr False), EvRetrieve msgNum True,
                            EvSend msgNum True, EvMarkFetched msgNum uid (Inr False)]\<rparr>
                | Inr (None, t', files') \<Rightarrow>
                    if \<not> dele_ok e msgNum then
                      st\<lparr>run_tracker := t', run_files := files',
                         run_errors := run_errors st + 1,
                         run_trace := run_trace st
                           @ [EvIsFetched msgNum uid (Inr False), EvRetrieve msgNum True,
                              EvSend msgNum True, EvMarkFetched msgNum uid (Inr True),
                              EvDelete msgNum False]\<rparr>
                    else
                      st\<lparr>run_tracker := t', run_files := files',
                         run_fetched := run_fetched st + 1,
                         run_trace := run_trace st
                           @ [EvIsFetched msgNum uid (Inr False), EvRetrieve msgNum True,
                              EvSend msgNum True, EvMarkFetched msgNum uid (Inr True),
                              EvDelete msgNum True]\<rparr>))"

text \<open>The loop: a panic ends the call, anything else moves on to the next number.\<close>

fun processMessages :: "env \<Rightarrow> string \<Rightarrow> (int \<rightharpoonup> string) \<Rightarrow> int list \<Rightarrow> run \<Rightarrow> run" where
  "processMessages e email uidMap [] st = st"
| "processMessages e email uidMap (msgNum # rest) st =
     (let st' = processMessage e email uidMap msgNum st
      in if run_panic st' \<noteq> None then st' else processMessages e email uidMap rest st')"

text \<open>
  \<open>processMailbox\<close> after \<open>pop3.Dial\<close> has succeeded and \<open>client.Quit()\<close> has been
  deferred: login, listing, the sorted message numbers, the loop.
\<close>

definition connected :: "env \<Rightarrow> YahooMailbox \<Rightarrow> run \<Rightarrow> run" where
  "connected e yahoo st =
     (if \<not> login_ok e then
        st\<lparr>run_fetched := 0, run_errors := 1, run_trace := run_trace st @ [EvLogin False]\<rparr>
      else
        (case uidl e of
           None \<Rightarrow>
             st\<lparr>run_fetched := 0, run_errors := 1,
                run_trace := run_trace st @ [EvLogin True, EvUIDList False]\<rparr>
         | Some al \<Rightarrow>
             processMessages e (Email yahoo) (map_of al) (sort (remdups (map fst al)))
               (st\<lparr>run_trace := run_trace st @ [EvLogin True, EvUIDList True]\<rparr>)))"

text \<open>
  \<open>processMailbox\<close>: when the dial fails nothing is deferred; otherwise the deferred
  \<open>client.Quit()\<close> runs when the function returns or panics, whatever happened in between.
\<close>

definition processMailbox :: "env \<Rightarrow> YahooMailbox \<Rightarrow> Tracker \<Rightarrow> fs \<Rightarrow> run" where
  "processMailbox e yahoo t files =
     (if \<not> dial_ok e then
        \<lparr>run_tracker = t, run_files = files, run_fetched = 0, run_errors = 1,
         run_trace = [EvDial False], run_panic = None\<rparr>
      else
        (let st = connected e yahoo
                    \<lparr>run_tracker = t, run_files = files, run_fetched = 0, run_errors = 0,
                     run_trace = [EvDial True], run_panic = None\<rparr>
         in st\<lparr>run_trace := run_trace st @ [EvQuit]\<rparr>))"

text \<open>
  The ordering of section 4.5 as a check of a sequence of calls: a call of \<open>MarkFetched\<close>
  for a message is admissible when a \<open>Send\<close> for that message has returned nil before,
  and a call of \<open>Delete\<close> when a \<open>MarkFetched\<close> for that message has returned nil before.
\<close>

definition admissible :: "event list \<Rightarrow> event \<Rightarrow> bool" where
  "admissible seen ev =
     (case ev of
        EvMarkFetched n u b \<Rightarrow> EvSend n True \<in> set seen
      | EvDelete n b \<Rightarrow> (\<exists>u. EvMarkFetched n u (Inr True) \<in> set seen)
      | _ \<Rightarrow> True)"

fun ordered_from :: "event list \<Rightarrow> event list \<Rightarrow> bool" where
  "ordered_from seen [] = True"
| "ordered_from seen (ev # rest) = (admissible seen ev \<and> ordered_from (seen @ [ev]) rest)"

text \<open>Every recorded outcome of \<open>Send\<close> is the one the environment gives for that message.\<close>

definition sends_as :: "env \<Rightarrow> event list \<Rightarrow> bool" where
  "sends_as e tr = (\<forall>n b. EvSend n b \<in> set tr \<longrightarrow> b = send_ok e n)"







text \<open>
  A mailbox and an environment for the examples: two messages listed, as in the scenario
  of the specification, and every call succeeding.
\<close>

definition exMailbox :: YahooMailbox where
  "exMailbox = \<lparr>Email = ''user@yahoo.com'', AppPassword = ''secret'',
                POP3Host = ''pop.mail.yahoo.com'', POP3Port = 995\<rparr>"

definition exEnv :: env where
  "exEnv = \<lparr>dial_ok = True, login_ok = True, uidl = Some [(1, ''abc''), (2, ''def'')],
            retr_ok = (\<lambda>n. True), send_ok = (\<lambda>n. True), save_fault = (\<lambda>n. NoFault),
            dele_ok = (\<lambda>n. True)\<rparr>"

section \<open>Properties of the tracker\<close>

lemma tmp_name_differs: "p @ ''.tmp'' \<noteq> p"
  by simp

lemma save_canonical_unchanged:
  "f \<noteq> NoFault \<Longrightarrow> save t f files = (err, files') \<Longrightarrow>
     files' (filePath t) = files (filePath t) \<and> err \<noteq> None"
  by (cases f) (auto simp: save_def os_WriteFile_def)





lemma MarkFetched_Inr_D:
  "MarkFetched t m u f files = Inr (err, t', files') \<Longrightarrow>
   \<exists>mb p p'. mailboxEntry t m = Inr (mb, p) \<and> setFetched p u = Inr p' \<and>
     t' = t\<lparr>data := \<lparr>Mailboxes = GoMap (mb(m \<mapsto> p'))\<rparr>\<rparr> \<and> save t' f files = (err, files')"
  unfolding MarkFetched_def
  by (simp split: sum.splits prod.splits add: Let_def)


lemma mailboxEntry_Inr_D:
  "mailboxEntry t m = Inr (mb, p) \<Longrightarrow>
   \<exists>mb0. Mailboxes (data t) = GoMap mb0 \<and> mb m = Some p \<and> (\<forall>m'. m' \<noteq> m \<longrightarrow> mb m' = mb0 m') \<and>
     (mb0 m = None \<and> p = Ref \<lparr>FetchedUIDs = GoMap Map.empty\<rparr> \<or> mb0 m = Some p)"
  unfolding mailboxEntry_def
  by (cases "Mailboxes (data t)") (auto split: option.splits)

lemma setFetched_Inr_D:
  "setFetched p u = Inr p' \<Longrightarrow>
   \<exists>ms um. p = Ref ms \<and> FetchedUIDs ms = GoMap um \<and>
     p' = Ref (ms\<lparr>FetchedUIDs := GoMap (um(u \<mapsto> True))\<rparr>)"
  unfolding setFetched_def
  by (cases p) (auto split: gomap.splits)










text \<open>
  Claim C9. When \<open>MarkFetched\<close> returns an error (its \<open>save\<close> failed), the tracker in
  memory already holds the UID, so \<open>IsFetched\<close> answers true for it, while the canonical
  state file is what it was before the call.
\<close>

theorem MarkFetched_error_keeps_memory_change:
  assumes "MarkFetched t m u f files = Inr (Some e, t', files')"
  shows "IsFetched t' m u = Inr True \<and> files' (filePath t) = files (filePath t)"
proof -
  from MarkFetched_Inr_D [OF assms] obtain mb p p' where
    s: "setFetched p u = Inr p'" and
    t': "t' = t\<lparr>data := \<lparr>Mailboxes = GoMap (mb(m \<mapsto> p'))\<rparr>\<rparr>" and
    sv: "save t' f files = (Some e, files')"
    by blast
  from setFetched_Inr_D [OF s] obtain ms um where
    p': "p' = Ref (ms\<lparr>FetchedUIDs := GoMap (um(u \<mapsto> True))\<rparr>)"
    by blast
  have a: "IsFetched t' m u = Inr True"
    by (simp add: IsFetched_def t' p')
  have "f \<noteq> NoFault" using sv by (auto simp: save_def)
  from save_canonical_unchanged [OF this sv] have "files' (filePath t') = files (filePath t')" by simp
  with a show ?thesis by (simp add: t')
qed

theorem MarkFetched_error_keeps_memory_change_witness:
  "\<exists>t' files'.
     MarkFetched (emptyTracker ''/data/state.json'') ''a@yahoo.com'' ''uid1'' RenameFault Map.empty
       = Inr (Some ErrRename, t', files') \<and>
     IsFetched t' ''a@yahoo.com'' ''uid1'' = Inr True \<and>
     files' ''/data/state.json'' = None"
proof -
  obtain t' files' where h:
    "MarkFetched (emptyTracker ''/data/state.json'') ''a@yahoo.com'' ''uid1'' RenameFault Map.empty
       = Inr (Some ErrRename, t', files')"
    by (simp add: MarkFetched_def mailboxEntry_def setFetched_def emptyTracker_def save_def)
  from MarkFetched_error_keeps_memory_change [OF h] h show ?thesis
    by (simp add: emptyTracker_def)
qed

text \<open>
  Claim C10. After \<open>MarkFetched t m u\<close> returns nil, \<open>IsFetched\<close> is true for \<open>(m, u)\<close>
  and answers for every other pair what it answered before the call.
\<close>

theorem MarkFetched_sets_only_its_entry:
  assumes "MarkFetched t m u f files = Inr (None, t', files')"
  shows "IsFetched t' m u = Inr True \<and>
         (\<forall>m' u'. (m', u') \<noteq> (m, u) \<longrightarrow> IsFetched t' m' u' = IsFetched t m' u')"
proof -
  from MarkFetched_Inr_D [OF assms] obtain mb p p' where
    e: "mailboxEntry t m = Inr (mb, p)" and s: "setFetched p u = Inr p'" and
    t': "t' = t\<lparr>data := \<lparr>Mailboxes = GoMap (mb(m \<mapsto> p'))\<rparr>\<rparr>"
    by blast
  from mailboxEntry_Inr_D [OF e] obtain mb0 where mb0: "Mailboxes (data t) = GoMap mb0" and
    other: "\<And>m'. m' \<noteq> m \<Longrightarrow> mb m' = mb0 m'" and
    here: "mb0 m = None \<and> p = Ref \<lparr>FetchedUIDs = GoMap Map.empty\<rparr> \<or> mb0 m = Some p"
    by blast
  from setFetched_Inr_D [OF s] obtain ms um where p: "p = Ref ms" and um: "FetchedUIDs ms = GoMap um" and
    p': "p' = Ref (ms\<lparr>FetchedUIDs := GoMap (um(u \<mapsto> True))\<rparr>)"
    by blast
  have a: "IsFetched t' m u = Inr True"
    by (simp add: IsFetched_def t' p')
  have b: "IsFetched t' m' u' = IsFetched t m' u'" if "(m', u') \<noteq> (m, u)" for m' u'
  proof (cases "m' = m")
    case False
    then show ?thesis by (simp add: IsFetched_def t' mb0 other)
  next
    case True
    with that have "u' \<noteq> u" by simp
    with True here p um show ?thesis
      by (auto simp: IsFetched_def t' mb0 p')
  qed
  from a b show ?thesis by blast
qed

theorem MarkFetched_sets_only_its_entry_witness:
  "\<exists>t' files'.
     MarkFetched (emptyTracker ''/data/state.json'') ''a@yahoo.com'' ''uid1'' NoFault Map.empty
       = Inr (None, t', files') \<and>
     IsFetched t' ''a@yahoo.com'' ''uid1'' = Inr True \<and>
     IsFetched t' ''a@yahoo.com'' ''uid2'' = Inr False \<and>
     IsFetched t' ''b@yahoo.com'' ''uid1'' = Inr False"
proof -
  obtain t' files' where h:
    "MarkFetched (emptyTracker ''/data/state.json'') ''a@yahoo.com'' ''uid1'' NoFault Map.empty
       = Inr (None, t', files')"
    by (simp add: MarkFetched_def mailboxEntry_def setFetched_def emptyTracker_def save_def)
  have e: "IsFetched (emptyTracker ''/data/state.json'') m u = Inr False" for m u
    by (simp add: IsFetched_def emptyTracker_def)
  from MarkFetched_sets_only_its_entry [OF h] e h show ?thesis by simp
qed

section \<open>Properties of the POP3 client\<close>

lemma ReadString_line: "LF \<notin> set l \<Longrightarrow> ReadString (l @ LF # rest) = Some (l @ [LF], rest)"
  by (induction l) auto

lemma ReadString_no_line: "LF \<notin> set l \<Longrightarrow> ReadString l = None"
  by (induction l) auto

lemma TrimRight_Cons_keep: "c \<notin> set cs \<Longrightarrow> TrimRight (c # s) cs = c # TrimRight s cs"
  by (simp add: TrimRight_def dropWhile_append)

lemma TrimRight_append: "\<exists>r. s = TrimRight s cs @ r"
proof -
  have "rev s = takeWhile (\<lambda>c. c \<in> set cs) (rev s) @ dropWhile (\<lambda>c. c \<in> set cs) (rev s)"
    by simp
  then have "s = TrimRight s cs @ rev (takeWhile (\<lambda>c. c \<in> set cs) (rev s))"
    unfolding TrimRight_def by (metis rev_append rev_rev_ident)
  then show ?thesis by blast
qed

lemma TrimRight_dot: "TrimRight (CHR ''.'' # s) crlf = CHR ''.'' # TrimRight s crlf"
  by (rule TrimRight_Cons_keep) (simp add: crlf_def CR_def LF_def)

lemma HasPrefix_dots: "HasPrefix s ''..'' \<longleftrightarrow> (\<exists>r. s = CHR ''.'' # CHR ''.'' # r)"
  by (cases s; cases "tl s") (auto simp: HasPrefix_def)

lemma stuffed_iff:
  "HasPrefix (TrimRight (l @ [LF]) crlf) ''..'' \<longleftrightarrow> (\<exists>r. l = CHR ''.'' # CHR ''.'' # r)"
proof
  assume "HasPrefix (TrimRight (l @ [LF]) crlf) ''..''"
  then obtain r where r: "TrimRight (l @ [LF]) crlf = CHR ''.'' # CHR ''.'' # r"
    by (auto simp: HasPrefix_dots)
  from TrimRight_append [of "l @ [LF]" crlf] obtain x where
    "l @ [LF] = TrimRight (l @ [LF]) crlf @ x" by blast
  with r have "l @ [LF] = CHR ''.'' # CHR ''.'' # r @ x" by simp
  then show "\<exists>r. l = CHR ''.'' # CHR ''.'' # r"
    by (cases l; cases "tl l") (auto simp: LF_def)
next
  assume "\<exists>r. l = CHR ''.'' # CHR ''.'' # r"
  then show "HasPrefix (TrimRight (l @ [LF]) crlf) ''..''"
    by (auto simp: TrimRight_dot HasPrefix_dots)
qed

lemma unstuff_line:
  "(if HasPrefix (TrimRight (l @ [LF]) crlf) ''..'' then drop 1 (l @ [LF]) else l @ [LF])
     = unstuffed l @ [LF]"
proof (cases "\<exists>r. l = CHR ''.'' # CHR ''.'' # r")
  case True
  then show ?thesis by (auto simp: stuffed_iff unstuffed_def)
next
  case False
  then have "unstuffed l = l"
    by (cases l; cases "tl l") (auto simp: unstuffed_def)
  with False show ?thesis by (simp add: stuffed_iff)
qed

lemma retrieveLoop_lines:
  assumes "\<forall>l \<in> set ls. LF \<notin> set l \<and> TrimRight (l @ [LF]) crlf \<noteq> ''.''"
  shows "retrieveLoop (concat (map (\<lambda>l. l @ [LF]) ls) @ s) buf
           = retrieveLoop s (buf @ concat (map (\<lambda>l. unstuffed l @ [LF]) ls))"
  using assms
proof (induction ls arbitrary: buf)
  case Nil
  then show ?case by simp
next
  case (Cons l ls)
  then have l: "LF \<notin> set l" "TrimRight (l @ [LF]) crlf \<noteq> ''.''" by simp_all
  have "retrieveLoop (concat (map (\<lambda>l. l @ [LF]) (l # ls)) @ s) buf
          = retrieveLoop (concat (map (\<lambda>l. l @ [LF]) ls) @ s) (buf @ unstuffed l @ [LF])"
    using ReadString_line [OF l(1), of "concat (map (\<lambda>l. l @ [LF]) ls) @ s"] l(2)
    by (subst retrieveLoop.simps) (simp add: unstuff_line Let_def)
  also have "\<dots> = retrieveLoop s ((buf @ unstuffed l @ [LF]) @ concat (map (\<lambda>l. unstuffed l @ [LF]) ls))"
    using Cons by simp
  finally show ?case by simp
qed

lemma retrieveLoop_terminator:
  "LF \<notin> set t \<Longrightarrow> TrimRight (t @ [LF]) crlf = ''.'' \<Longrightarrow>
     retrieveLoop (t @ [LF] @ rest) buf = Inr (buf, rest)"
  using ReadString_line [of t rest]
  by (subst retrieveLoop.simps) simp

lemma retrieveLoop_eof:
  "LF \<notin> set tail \<Longrightarrow> retrieveLoop tail buf = Inl ErrReadLine"
  by (subst retrieveLoop.simps) (simp add: ReadString_no_line)

lemma command_ok:
  assumes "\<not> deadline_fails c" "\<not> write_fails c" "LF \<notin> set status"
    "\<not> HasPrefix (TrimRight (status @ [LF]) crlf) ''-ERR''"
    "inbound c = status @ [LF] @ s"
  shows "command c cmd = (Inr (TrimRight (status @ [LF]) crlf), c\<lparr>sent := sent c @ cmd @ crlf, inbound := s\<rparr>)"
  using assms ReadString_line [of status s]
  by (simp add: command_def readResponse_def Let_def)

text \<open>
  Claim C3. Let the command be sent and answered by a status line that is not \<open>-ERR\<close>,
  and let the server then send the lines \<open>ls\<close>, none of them the terminator line (a
  line that is \<open>.\<close> once its trailing carriage returns and line feeds are trimmed).
  If a terminator line follows, \<open>Retrieve\<close> returns the lines \<open>ls\<close> in order, each
  unstuffed once, without the terminator line, and leaves what follows it unread. If the
  input ends before a terminator line is complete, or before the status line is,
  \<open>Retrieve\<close> returns an error.
\<close>

theorem Retrieve_reads_until_terminator:
  assumes "\<not> deadline_fails c" and "\<not> write_fails c"
    and "LF \<notin> set status" and "\<not> HasPrefix (TrimRight (status @ [LF]) crlf) ''-ERR''"
    and "\<forall>l \<in> set ls. LF \<notin> set l \<and> TrimRight (l @ [LF]) crlf \<noteq> ''.''"
  shows "(LF \<notin> set t \<and> TrimRight (t @ [LF]) crlf = ''.'' \<and>
          inbound c = status @ [LF] @ concat (map (\<lambda>l. l @ [LF]) ls) @ t @ [LF] @ rest
            \<longrightarrow> fst (Retrieve c n) = Inr (concat (map (\<lambda>l. unstuffed l @ [LF]) ls)) \<and>
                inbound (snd (Retrieve c n)) = rest)
       \<and> (LF \<notin> set tail \<and>
          inbound c = status @ [LF] @ concat (map (\<lambda>l. l @ [LF]) ls) @ tail
            \<longrightarrow> fst (Retrieve c n) = Inl ErrReadLine)
       \<and> (LF \<notin> set (inbound c) \<longrightarrow> fst (Retrieve c n) = Inl ErrClosed)"
proof (intro conjI impI)
  assume h: "LF \<notin> set t \<and> TrimRight (t @ [LF]) crlf = ''.'' \<and>
          inbound c = status @ [LF] @ concat (map (\<lambda>l. l @ [LF]) ls) @ t @ [LF] @ rest"
  have loop: "retrieveLoop (concat (map (\<lambda>l. l @ [LF]) ls) @ t @ [LF] @ rest) []
          = Inr (concat (map (\<lambda>l. unstuffed l @ [LF]) ls), rest)"
    using retrieveLoop_lines [OF assms(5)] retrieveLoop_terminator h by simp
  from h have i: "inbound c = status @ [LF] @ (concat (map (\<lambda>l. l @ [LF]) ls) @ t @ [LF] @ rest)"
    by simp
  show "fst (Retrieve c n) = Inr (concat (map (\<lambda>l. unstuffed l @ [LF]) ls))"
    unfolding Retrieve_def command_ok [OF assms(1-4) i] using loop by simp
  show "inbound (snd (Retrieve c n)) = rest"
    unfolding Retrieve_def command_ok [OF assms(1-4) i] using loop by simp
next
  assume h: "LF \<notin> set tail \<and>
          inbound c = status @ [LF] @ concat (map (\<lambda>l. l @ [LF]) ls) @ tail"
  have loop: "retrieveLoop (concat (map (\<lambda>l. l @ [LF]) ls) @ tail) [] = Inl ErrReadLine"
    using retrieveLoop_lines [OF assms(5)] retrieveLoop_eof h by simp
  from h have i: "inbound c = status @ [LF] @ (concat (map (\<lambda>l. l @ [LF]) ls) @ tail)"
    by simp
  show "fst (Retrieve c n) = Inl ErrReadLine"
    unfolding Retrieve_def command_ok [OF assms(1-4) i] using loop by simp
next
  assume "LF \<notin> set (inbound c)"
  then show "fst (Retrieve c n) = Inl ErrClosed"
    using assms(1,2)
    by (simp add: Retrieve_def command_def readResponse_def ReadString_no_line)
qed

theorem Retrieve_reads_until_terminator_witness:
  "fst (Retrieve \<lparr>inbound = ''+OK'' @ crlf @ ''Subject: Dots'' @ crlf @ crlf @
                    ''..leading dot'' @ crlf @ ''normal line'' @ crlf @ ''.'' @ crlf @ ''+OK bye'',
                  sent = [], deadline_fails = False, write_fails = False, closed = False\<rparr> 1)
     = Inr (''Subject: Dots'' @ crlf @ crlf @ ''.leading dot'' @ crlf @ ''normal line'' @ crlf)
   \<and> fst (Retrieve \<lparr>inbound = ''+OK'' @ crlf @ ''..x'' @ crlf @ ''.'',
                  sent = [], deadline_fails = False, write_fails = False, closed = False\<rparr> 1)
     = Inl ErrReadLine"
proof -
  have e: "LF \<noteq> CR" "LF \<noteq> CHR ''.''" "CR \<noteq> CHR ''.''"
    by (simp_all add: LF_def CR_def)
  have a: "fst (Retrieve \<lparr>inbound = ''+OK'' @ crlf @ ''Subject: Dots'' @ crlf @ crlf @
                    ''..leading dot'' @ crlf @ ''normal line'' @ crlf @ ''.'' @ crlf @ ''+OK bye'',
                  sent = [], deadline_fails = False, write_fails = False, closed = False\<rparr> 1)
     = Inr (''Subject: Dots'' @ crlf @ crlf @ ''.leading dot'' @ crlf @ ''normal line'' @ crlf)"
    using Retrieve_reads_until_terminator
      [of "\<lparr>inbound = ''+OK'' @ crlf @ ''Subject: Dots'' @ crlf @ crlf @
                    ''..leading dot'' @ crlf @ ''normal line'' @ crlf @ ''.'' @ crlf @ ''+OK bye'',
                  sent = [], deadline_fails = False, write_fails = False, closed = False\<rparr>"
          "''+OK'' @ [CR]"
          "[''Subject: Dots'' @ [CR], [CR], ''..leading dot'' @ [CR], ''normal line'' @ [CR]]"
          "''.'' @ [CR]" "''+OK bye''" 1 "[]"]
    by (simp add: crlf_def TrimRight_def HasPrefix_def unstuffed_def LF_def CR_def)
  have b: "fst (Retrieve \<lparr>inbound = ''+OK'' @ crlf @ ''..x'' @ crlf @ ''.'',
                  sent = [], deadline_fails = False, write_fails = False, closed = False\<rparr> 1)
     = Inl ErrReadLine"
    using Retrieve_reads_until_terminator
      [of "\<lparr>inbound = ''+OK'' @ crlf @ ''..x'' @ crlf @ ''.'',
                  sent = [], deadline_fails = False, write_fails = False, closed = False\<rparr>"
          "''+OK'' @ [CR]" "[''..x'' @ [CR]]" "[]" "[]" 1 "''.''"]
    by (simp add: crlf_def TrimRight_def HasPrefix_def unstuffed_def LF_def CR_def)
  from a b show ?thesis by (rule conjI)
qed

section \<open>Properties of the envelope transform\<close>

lemma filter_key_Pair:
  "filter (\<lambda>f. fst f = k) (map (Pair a) vs) = (if a = k then map (Pair k) vs else [])"
  by (induction vs) auto

lemma remaining_Cons:
  "remaining h (a # order) =
      (if handled a then [] else map (Pair a) (case h a of None \<Rightarrow> [] | Some vs \<Rightarrow> vs))
      @ remaining h order"
  by (simp add: remaining_def)

lemma remaining_Nil: "remaining h [] = []"
  by (simp add: remaining_def)

lemma filter_remaining:
  "distinct order \<Longrightarrow>
   filter (\<lambda>f. fst f = k) (remaining h order) =
     (if k \<in> set order \<and> \<not> handled k
      then map (Pair k) (case h k of None \<Rightarrow> [] | Some vs \<Rightarrow> vs) else [])"
  by (induction order) (auto simp: remaining_Cons remaining_Nil filter_key_Pair)

lemma remaining_handled:
  "handled k \<Longrightarrow> filter (\<lambda>f. fst f = k) (remaining h order) = []"
  by (induction order) (auto simp: remaining_Cons remaining_Nil filter_key_Pair)

lemma handled_Reply_To: "handled ''Reply-To''"
  by (simp add: handled_def)

lemma filter_opt: "name \<noteq> k \<Longrightarrow> filter (\<lambda>f. fst f = k) (opt name v) = []"
  by (simp add: opt_def)

lemma addField_apply:
  "addField h f key =
     (if CanonicalMIMEHeaderKey (fst f) = key
      then Some ((case h key of None \<Rightarrow> [] | Some ws \<Rightarrow> ws) @ [snd f]) else h key)"
  by (auto simp: addField_def Let_def)

lemma foldl_addField:
  "foldl addField h flds key =
     (case map snd (filter (\<lambda>f. CanonicalMIMEHeaderKey (fst f) = key) flds) of
        [] \<Rightarrow> h key
      | v # vs \<Rightarrow> Some ((case h key of None \<Rightarrow> [] | Some ws \<Rightarrow> ws) @ v # vs))"
proof (induction flds arbitrary: h)
  case Nil
  then show ?case by simp
next
  case (Cons f flds)
  have "foldl addField h (f # flds) key = foldl addField (addField h f) flds key"
    by simp
  also have "\<dots> =
     (case map snd (filter (\<lambda>f. CanonicalMIMEHeaderKey (fst f) = key) flds) of
        [] \<Rightarrow> addField h f key
      | v # vs \<Rightarrow> Some ((case addField h f key of None \<Rightarrow> [] | Some ws \<Rightarrow> ws) @ v # vs))"
    by (rule Cons.IH)
  also have "\<dots> =
     (case map snd (filter (\<lambda>f. CanonicalMIMEHeaderKey (fst f) = key) (f # flds)) of
        [] \<Rightarrow> h key
      | v # vs \<Rightarrow> Some ((case h key of None \<Rightarrow> [] | Some ws \<Rightarrow> ws) @ v # vs))"
    by (cases "CanonicalMIMEHeaderKey (fst f) = key")
       (simp_all add: addField_apply split: list.splits)
  finally show ?case .
qed

lemma headerOfFields_values:
  "(case headerOfFields flds key of None \<Rightarrow> [] | Some vs \<Rightarrow> vs)
     = map snd (filter (\<lambda>f. CanonicalMIMEHeaderKey (fst f) = key) flds)"
  by (simp add: headerOfFields_def foldl_addField split: list.splits)

lemma headerOfFields_dom:
  "f \<in> set flds \<Longrightarrow> CanonicalMIMEHeaderKey (fst f) \<in> dom (headerOfFields flds)"
proof -
  assume "f \<in> set flds"
  then have "filter (\<lambda>g. CanonicalMIMEHeaderKey (fst g) = CanonicalMIMEHeaderKey (fst f)) flds \<noteq> []"
    by (auto simp: filter_empty_conv)
  then show ?thesis
    by (auto simp: headerOfFields_def foldl_addField split: list.splits)
qed

lemma canon_examples:
  "CanonicalMIMEHeaderKey ''x-first'' = ''X-First''"
  "CanonicalMIMEHeaderKey ''X-Second'' = ''X-Second''"
  "CanonicalMIMEHeaderKey ''X-First'' = ''X-First''"
  "CanonicalMIMEHeaderKey ''Subject'' = ''Subject''"
  by code_simp+

text \<open>
  Claim C7, as the code has it. The loop over \<open>msg.Header\<close> visits the keys of a Go map
  in an order the runtime chooses. For every order of the keys and every name that is
  not in the handled set: the values the loop writes under that name are the values of
  the original header lines of that name (compared by canonical name), in their original
  order, so each such line is in the output under its canonical name. The headers
  written before the loop do not depend on the order; the loop's output follows the
  order of the visit. The bytes sent are these header lines, a blank line and the body.
\<close>

theorem forward_copies_remaining_headers:
  assumes "distinct order" and "set order = dom (headerOfFields flds)"
    and "\<not> handled key"
  shows "map snd (filter (\<lambda>f. fst f = key) (remaining (headerOfFields flds) order))
           = map snd (filter (\<lambda>f. CanonicalMIMEHeaderKey (fst f) = key) flds)
       \<and> (\<forall>f \<in> set flds. CanonicalMIMEHeaderKey (fst f) = key \<longrightarrow>
            (key, snd f) \<in> set (forwardHeaders s src \<lparr>Header = headerOfFields flds, Body = b\<rparr> order))
       \<and> forwardHeaders s src \<lparr>Header = headerOfFields flds, Body = b\<rparr> order
           = forwardHeaders s src \<lparr>Header = headerOfFields flds, Body = b\<rparr> []
             @ remaining (headerOfFields flds) order
       \<and> forwardBytes s src \<lparr>Header = headerOfFields flds, Body = b\<rparr> order
           = concat (map headerLine
               (forwardHeaders s src \<lparr>Header = headerOfFields flds, Body = b\<rparr> order)) @ crlf @ b"
proof -
  let ?h = "headerOfFields flds"
  let ?m = "\<lparr>Header = ?h, Body = b\<rparr>"
  have split: "forwardHeaders s src ?m order = forwardHeaders s src ?m [] @ remaining ?h order"
    by (simp add: forwardHeaders_def Let_def remaining_Nil)
  have vals: "map snd (filter (\<lambda>f. fst f = key) (remaining ?h order))
           = map snd (filter (\<lambda>f. CanonicalMIMEHeaderKey (fst f) = key) flds)"
  proof (cases "key \<in> set order")
    case True
    with assms show ?thesis
      by (simp add: filter_remaining headerOfFields_values comp_def)
  next
    case False
    with assms(2) have "?h key = None" by auto
    then have "map snd (filter (\<lambda>f. CanonicalMIMEHeaderKey (fst f) = key) flds) = []"
      using headerOfFields_values [of flds key] by simp
    with False assms show ?thesis
      by (simp add: filter_remaining)
  qed
  have mem: "(key, snd f) \<in> set (forwardHeaders s src ?m order)"
    if f: "f \<in> set flds" and k: "CanonicalMIMEHeaderKey (fst f) = key" for f
  proof -
    from f k have "snd f \<in> set (map snd (filter (\<lambda>f. CanonicalMIMEHeaderKey (fst f) = key) flds))"
      by auto
    with vals have "snd f \<in> set (map snd (filter (\<lambda>f. fst f = key) (remaining ?h order)))"
      by simp
    then have "(key, snd f) \<in> set (remaining ?h order)"
      by auto
    then show ?thesis
      by (subst split) simp
  qed
  have bytes: "forwardBytes s src ?m order
           = concat (map headerLine (forwardHeaders s src ?m order)) @ crlf @ b"
    by (simp add: forwardBytes_def)
  show ?thesis
  proof (intro conjI ballI impI)
    show "map snd (filter (\<lambda>f. fst f = key) (remaining ?h order))
           = map snd (filter (\<lambda>f. CanonicalMIMEHeaderKey (fst f) = key) flds)"
      by (rule vals)
    show "(key, snd f) \<in> set (forwardHeaders s src ?m order)"
      if "f \<in> set flds" "CanonicalMIMEHeaderKey (fst f) = key" for f
      using that by (rule mem)
    show "forwardHeaders s src ?m order = forwardHeaders s src ?m [] @ remaining ?h order"
      by (rule split)
    show "forwardBytes s src ?m order
           = concat (map headerLine (forwardHeaders s src ?m order)) @ crlf @ b"
      by (rule bytes)
  qed
qed

theorem forward_copies_remaining_headers_witness:
  "distinct [''Subject'', ''X-Second'', ''X-First'']
   \<and> set [''Subject'', ''X-Second'', ''X-First'']
       = dom (headerOfFields [(''x-first'', ''1''), (''X-Second'', ''2''), (''X-First'', ''3''), (''Subject'', ''Hi'')])
   \<and> \<not> handled ''X-First''
   \<and> map snd (filter (\<lambda>f. fst f = ''X-First'')
        (remaining
           (headerOfFields [(''x-first'', ''1''), (''X-Second'', ''2''), (''X-First'', ''3''), (''Subject'', ''Hi'')])
           [''Subject'', ''X-Second'', ''X-First'']))
     = [''1'', ''3'']
   \<and> (''X-First'', ''3'')
       \<in> set (forwardHeaders (NewSender ''smtp.gmail.com'' 587 ''me@gmail.com'' ''secret'' ''me@gmail.com'')
           ''a@yahoo.com''
           \<lparr>Header = headerOfFields [(''x-first'', ''1''), (''X-Second'', ''2''), (''X-First'', ''3''), (''Subject'', ''Hi'')],
            Body = ''x''\<rparr>
           [''Subject'', ''X-Second'', ''X-First''])"
proof -
  have a: "distinct [''Subject'', ''X-Second'', ''X-First'']"
    by simp
  have b: "set [''Subject'', ''X-Second'', ''X-First'']
       = dom (headerOfFields [(''x-first'', ''1''), (''X-Second'', ''2''), (''X-First'', ''3''), (''Subject'', ''Hi'')])"
    by (simp add: headerOfFields_def addField_def canon_examples Let_def) auto
  have c: "\<not> handled ''X-First''"
    by (simp add: handled_def)
  have d: "map snd (filter (\<lambda>f. CanonicalMIMEHeaderKey (fst f) = ''X-First'')
              [(''x-first'', ''1''), (''X-Second'', ''2''), (''X-First'', ''3''), (''Subject'', ''Hi'')])
            = [''1'', ''3'']"
    by (simp add: canon_examples)
  note t = forward_copies_remaining_headers [OF a b c,
      of "NewSender ''smtp.gmail.com'' 587 ''me@gmail.com'' ''secret'' ''me@gmail.com''"
         "''a@yahoo.com''" "''x''"]
  note r1 = trans [OF t [THEN conjunct1] d]
  have m: "(''X-First'', ''3'') \<in> set [(''x-first'', ''1''), (''X-Second'', ''2''), (''X-First'', ''3''), (''Subject'', ''Hi'')]"
    by simp
  have k: "CanonicalMIMEHeaderKey (fst (''X-First'', ''3'')) = ''X-First''"
    by (simp add: canon_examples)
  from t [THEN conjunct2, THEN conjunct1, rule_format, OF m k]
  have r2: "(''X-First'', ''3'')
       \<in> set (forwardHeaders (NewSender ''smtp.gmail.com'' 587 ''me@gmail.com'' ''secret'' ''me@gmail.com'')
           ''a@yahoo.com''
           \<lparr>Header = headerOfFields [(''x-first'', ''1''), (''X-Second'', ''2''), (''X-First'', ''3''), (''Subject'', ''Hi'')],
            Body = ''x''\<rparr>
           [''Subject'', ''X-Second'', ''X-First''])"
    by simp
  from a b c r1 r2 show ?thesis by blast
qed

text \<open>
  Claim C7 as stated fails. One parsed message, whose lines are \<open>x-first: 1\<close> and then
  \<open>X-Second: 2\<close>, is forwarded with \<open>X-First\<close> before \<open>X-Second\<close> under one order of
  the map's keys and with \<open>X-Second\<close> before \<open>X-First\<close> under the other: the bytes
  differ for the same input, the second output does not keep the relative order of the
  two headers, and the name \<open>x-first\<close> is written as \<open>X-First\<close>.
\<close>

theorem forward_copies_remaining_headers_counterexample:
  "forwardHeaders (NewSender ''smtp.gmail.com'' 587 ''me@gmail.com'' ''secret'' ''me@gmail.com'')
     ''a@yahoo.com''
     \<lparr>Header = headerOfFields [(''x-first'', ''1''), (''X-Second'', ''2'')], Body = ''x''\<rparr>
     [''X-First'', ''X-Second'']
     = [(''From'', ''me@gmail.com''), (''To'', ''me@gmail.com''),
        (''X-YaToGm-Source'', ''a@yahoo.com''), (''X-Mailer'', ''YaToGm/1.0''),
        (''X-First'', ''1''), (''X-Second'', ''2'')]
   \<and> forwardHeaders (NewSender ''smtp.gmail.com'' 587 ''me@gmail.com'' ''secret'' ''me@gmail.com'')
     ''a@yahoo.com''
     \<lparr>Header = headerOfFields [(''x-first'', ''1''), (''X-Second'', ''2'')], Body = ''x''\<rparr>
     [''X-Second'', ''X-First'']
     = [(''From'', ''me@gmail.com''), (''To'', ''me@gmail.com''),
        (''X-YaToGm-Source'', ''a@yahoo.com''), (''X-Mailer'', ''YaToGm/1.0''),
        (''X-Second'', ''2''), (''X-First'', ''1'')]
   \<and> forwardBytes (NewSender ''smtp.gmail.com'' 587 ''me@gmail.com'' ''secret'' ''me@gmail.com'')
     ''a@yahoo.com''
     \<lparr>Header = headerOfFields [(''x-first'', ''1''), (''X-Second'', ''2'')], Body = ''x''\<rparr>
     [''X-First'', ''X-Second'']
     \<noteq> forwardBytes (NewSender ''smtp.gmail.com'' 587 ''me@gmail.com'' ''secret'' ''me@gmail.com'')
     ''a@yahoo.com''
     \<lparr>Header = headerOfFields [(''x-first'', ''1''), (''X-Second'', ''2'')], Body = ''x''\<rparr>
     [''X-Second'', ''X-First'']
   \<and> dom (headerOfFields [(''x-first'', ''1''), (''X-Second'', ''2'')]) = set [''X-First'', ''X-Second'']
   \<and> dom (headerOfFields [(''x-first'', ''1''), (''X-Second'', ''2'')]) = set [''X-Second'', ''X-First'']"
proof -
  have d: "dom (headerOfFields [(''x-first'', ''1''), (''X-Second'', ''2'')]) = {''X-First'', ''X-Second''}"
    by (simp add: headerOfFields_def addField_def canon_examples Let_def insert_commute)
  have e: "forwardHeaders (NewSender ''smtp.gmail.com'' 587 ''me@gmail.com'' ''secret'' ''me@gmail.com'')
     ''a@yahoo.com''
     \<lparr>Header = headerOfFields [(''x-first'', ''1''), (''X-Second'', ''2'')], Body = ''x''\<rparr>
     [''X-First'', ''X-Second'']
     = [(''From'', ''me@gmail.com''), (''To'', ''me@gmail.com''),
        (''X-YaToGm-Source'', ''a@yahoo.com''), (''X-Mailer'', ''YaToGm/1.0''),
        (''X-First'', ''1''), (''X-Second'', ''2'')]"
    by code_simp
  have f: "forwardHeaders (NewSender ''smtp.gmail.com'' 587 ''me@gmail.com'' ''secret'' ''me@gmail.com'')
     ''a@yahoo.com''
     \<lparr>Header = headerOfFields [(''x-first'', ''1''), (''X-Second'', ''2'')], Body = ''x''\<rparr>
     [''X-Second'', ''X-First'']
     = [(''From'', ''me@gmail.com''), (''To'', ''me@gmail.com''),
        (''X-YaToGm-Source'', ''a@yahoo.com''), (''X-Mailer'', ''YaToGm/1.0''),
        (''X-Second'', ''2''), (''X-First'', ''1'')]"
    by code_simp
  have g: "forwardBytes (NewSender ''smtp.gmail.com'' 587 ''me@gmail.com'' ''secret'' ''me@gmail.com'')
     ''a@yahoo.com''
     \<lparr>Header = headerOfFields [(''x-first'', ''1''), (''X-Second'', ''2'')], Body = ''x''\<rparr>
     [''X-First'', ''X-Second'']
     \<noteq> forwardBytes (NewSender ''smtp.gmail.com'' 587 ''me@gmail.com'' ''secret'' ''me@gmail.com'')
     ''a@yahoo.com''
     \<lparr>Header = headerOfFields [(''x-first'', ''1''), (''X-Second'', ''2'')], Body = ''x''\<rparr>
     [''X-Second'', ''X-First'']"
    by code_simp
  have d1: "dom (headerOfFields [(''x-first'', ''1''), (''X-Second'', ''2'')]) = set [''X-First'', ''X-Second'']"
    unfolding d by simp
  have d2: "dom (headerOfFields [(''x-first'', ''1''), (''X-Second'', ''2'')]) = set [''X-Second'', ''X-First'']"
    unfolding d by auto
  from e f g d1 d2 show ?thesis by blast
qed

text \<open>
  Claim C8, as the code has it. \<open>Send\<close> tests the values \<open>Header.Get\<close> returns against
  the empty string. When the first \<open>From\<close> value is not empty and the first \<open>Reply-To\<close>
  value is empty or missing, the output has exactly one \<open>Reply-To\<close> header, equal to the
  \<open>From\<close> value, and the headers \<open>X-Original-From\<close> and \<open>Resent-From\<close> carrying it.
  When the first \<open>Reply-To\<close> value is not empty, the output has exactly one \<open>Reply-To\<close>
  header, with that value.
\<close>

theorem forward_Reply_To:
  "(Get (Header msg) ''From'' \<noteq> [] \<and> Get (Header msg) ''Reply-To'' = [] \<longrightarrow>
      filter (\<lambda>f. fst f = ''Reply-To'') (forwardHeaders s src msg order)
        = [(''Reply-To'', Get (Header msg) ''From'')] \<and>
      (''X-Original-From'', Get (Header msg) ''From'') \<in> set (forwardHeaders s src msg order) \<and>
      (''Resent-From'', Get (Header msg) ''From'') \<in> set (forwardHeaders s src msg order))
   \<and> (Get (Header msg) ''Reply-To'' \<noteq> [] \<longrightarrow>
      filter (\<lambda>f. fst f = ''Reply-To'') (forwardHeaders s src msg order)
        = [(''Reply-To'', Get (Header msg) ''Reply-To'')])"
  by (simp add: forwardHeaders_def Let_def filter_opt remaining_handled [OF handled_Reply_To])

theorem forward_Reply_To_witness:
  "Get (headerOfFields [(''From'', ''Jane <jane@x.com>''), (''Subject'', ''Hi'')]) ''From''
     = ''Jane <jane@x.com>''
   \<and> Get (headerOfFields [(''From'', ''Jane <jane@x.com>''), (''Subject'', ''Hi'')]) ''Reply-To'' = []
   \<and> filter (\<lambda>f. fst f = ''Reply-To'')
        (forwardHeaders (NewSender ''smtp.gmail.com'' 587 ''me@gmail.com'' ''secret'' ''me@gmail.com'')
           ''a@yahoo.com''
           \<lparr>Header = headerOfFields [(''From'', ''Jane <jane@x.com>''), (''Subject'', ''Hi'')],
            Body = ''x''\<rparr>
           [''Subject'', ''From''])
     = [(''Reply-To'', ''Jane <jane@x.com>'')]
   \<and> Get (headerOfFields [(''From'', ''Jane <jane@x.com>''), (''Reply-To'', ''list@x.com'')])
       ''Reply-To'' = ''list@x.com''
   \<and> filter (\<lambda>f. fst f = ''Reply-To'')
        (forwardHeaders (NewSender ''smtp.gmail.com'' 587 ''me@gmail.com'' ''secret'' ''me@gmail.com'')
           ''a@yahoo.com''
           \<lparr>Header = headerOfFields [(''From'', ''Jane <jane@x.com>''), (''Reply-To'', ''list@x.com'')],
            Body = ''x''\<rparr>
           [''Reply-To'', ''From''])
     = [(''Reply-To'', ''list@x.com'')]"
proof -
  have a: "Get (headerOfFields [(''From'', ''Jane <jane@x.com>''), (''Subject'', ''Hi'')]) ''From''
     = ''Jane <jane@x.com>''"
    by code_simp
  have b: "Get (headerOfFields [(''From'', ''Jane <jane@x.com>''), (''Subject'', ''Hi'')]) ''Reply-To'' = []"
    by code_simp
  have c: "Get (headerOfFields [(''From'', ''Jane <jane@x.com>''), (''Reply-To'', ''list@x.com'')])
       ''Reply-To'' = ''list@x.com''"
    by code_simp
  from a b c
    forward_Reply_To [of "\<lparr>Header = headerOfFields [(''From'', ''Jane <jane@x.com>''), (''Subject'', ''Hi'')],
            Body = ''x''\<rparr>"
       "NewSender ''smtp.gmail.com'' 587 ''me@gmail.com'' ''secret'' ''me@gmail.com''"
       "''a@yahoo.com''" "[''Subject'', ''From'']"]
    forward_Reply_To [of "\<lparr>Header = headerOfFields [(''From'', ''Jane <jane@x.com>''), (''Reply-To'', ''list@x.com'')],
            Body = ''x''\<rparr>"
       "NewSender ''smtp.gmail.com'' 587 ''me@gmail.com'' ''secret'' ''me@gmail.com''"
       "''a@yahoo.com''" "[''Reply-To'', ''From'']"]
  show ?thesis by simp
qed

text \<open>
  Claim C8 as stated fails on headers that are present with an empty value. A message
  with the line \<open>From:\<close> (empty value) and no \<open>Reply-To\<close> is forwarded without any
  \<open>Reply-To\<close>, \<open>X-Original-From\<close> or \<open>Resent-From\<close> header; a message with
  \<open>From: Jane <jane@x.com>\<close> and the line \<open>Reply-To:\<close> (empty value) is forwarded with
  the synthesized \<open>Reply-To: Jane <jane@x.com>\<close>.
\<close>

theorem forward_Reply_To_counterexample:
  "forwardHeaders (NewSender ''smtp.gmail.com'' 587 ''me@gmail.com'' ''secret'' ''me@gmail.com'')
     ''a@yahoo.com''
     \<lparr>Header = headerOfFields [(''From'', []), (''Subject'', ''Hi'')], Body = ''x''\<rparr>
     [''From'', ''Subject'']
     = [(''From'', ''me@gmail.com''), (''To'', ''me@gmail.com''), (''Subject'', ''Hi''),
        (''X-YaToGm-Source'', ''a@yahoo.com''), (''X-Mailer'', ''YaToGm/1.0'')]
   \<and> forwardHeaders (NewSender ''smtp.gmail.com'' 587 ''me@gmail.com'' ''secret'' ''me@gmail.com'')
     ''a@yahoo.com''
     \<lparr>Header = headerOfFields [(''From'', ''Jane <jane@x.com>''), (''Reply-To'', [])],
      Body = ''x''\<rparr>
     [''From'', ''Reply-To'']
     = [(''From'', ''me@gmail.com''), (''To'', ''me@gmail.com''),
        (''X-Original-From'', ''Jane <jane@x.com>''), (''Resent-From'', ''Jane <jane@x.com>''),
        (''Reply-To'', ''Jane <jane@x.com>''),
        (''X-YaToGm-Source'', ''a@yahoo.com''), (''X-Mailer'', ''YaToGm/1.0'')]"
  by code_simp

section \<open>Properties of the worker\<close>

lemma processMessage_cases:
  fixes st :: run
  defines "t \<equiv> run_tracker st"
  obtains
    (panic1) p where "IsFetched t email (uidOf um n) = Inl p"
      "processMessage e email um n st =
         st\<lparr>run_trace := run_trace st @ [EvIsFetched n (uidOf um n) (Inl p)], run_panic := Some p\<rparr>"
  | (skip) "IsFetched t email (uidOf um n) = Inr True"
      "processMessage e email um n st =
         st\<lparr>run_trace := run_trace st @ [EvIsFetched n (uidOf um n) (Inr True)]\<rparr>"
  | (retr) "IsFetched t email (uidOf um n) = Inr False" "\<not> retr_ok e n"
      "processMessage e email um n st =
         st\<lparr>run_errors := run_errors st + 1,
            run_trace := run_trace st @ [EvIsFetched n (uidOf um n) (Inr False), EvRetrieve n False]\<rparr>"
  | (send) "IsFetched t email (uidOf um n) = Inr False" "retr_ok e n" "\<not> send_ok e n"
      "processMessage e email um n st =
         st\<lparr>run_errors := run_errors st + 1,
            run_trace := run_trace st @ [EvIsFetched n (uidOf um n) (Inr False), EvRetrieve n True,
                                        EvSend n False]\<rparr>"
  | (panic2) p where "IsFetched t email (uidOf um n) = Inr False" "retr_ok e n" "send_ok e n"
      "MarkFetched t email (uidOf um n) (save_fault e n) (run_files st) = Inl p"
      "processMessage e email um n st =
         st\<lparr>run_trace := run_trace st @ [EvIsFetched n (uidOf um n) (Inr False), EvRetrieve n True,
                                        EvSend n True, EvMarkFetched n (uidOf um n) (Inl p)],
            run_panic := Some p\<rparr>"
  | (mark) err t' files' where "IsFetched t email (uidOf um n) = Inr False" "retr_ok e n" "send_ok e n"
      "MarkFetched t email (uidOf um n) (save_fault e n) (run_files st) = Inr (Some err, t', files')"
      "processMessage e email um n st =
         st\<lparr>run_tracker := t', run_files := files', run_errors := run_errors st + 1,
            run_trace := run_trace st @ [EvIsFetched n (uidOf um n) (Inr False), EvRetrieve n True,
                                        EvSend n True, EvMarkFetched n (uidOf um n) (Inr False)]\<rparr>"
  | (dele) t' files' where "IsFetched t email (uidOf um n) = Inr False" "retr_ok e n" "send_ok e n"
      "MarkFetched t email (uidOf um n) (save_fault e n) (run_files st) = Inr (None, t', files')"
      "\<not> dele_ok e n"
      "processMessage e email um n st =
         st\<lparr>run_tracker := t', run_files := files', run_errors := run_errors st + 1,
            run_trace := run_trace st @ [EvIsFetched n (uidOf um n) (Inr False), EvRetrieve n True,
                                        EvSend n True, EvMarkFetched n (uidOf um n) (Inr True),
                                        EvDelete n False]\<rparr>"
  | (full) t' files' where "IsFetched t email (uidOf um n) = Inr False" "retr_ok e n" "send_ok e n"
      "MarkFetched t email (uidOf um n) (save_fault e n) (run_files st) = Inr (None, t', files')"
      "dele_ok e n"
      "processMessage e email um n st =
         st\<lparr>run_tracker := t', run_files := files', run_fetched := run_fetched st + 1,
            run_trace := run_trace st @ [EvIsFetched n (uidOf um n) (Inr False), EvRetrieve n True,
                                        EvSend n True, EvMarkFetched n (uidOf um n) (Inr True),
                                        EvDelete n True]\<rparr>"
proof (cases "IsFetched t email (uidOf um n)")
  case (Inl p)
  then show ?thesis
    by (intro panic1 [of p]) (simp_all add: processMessage_def t_def Let_def)
next
  case (Inr b)
  show ?thesis
  proof (cases b)
    case True
    with Inr show ?thesis
      by (intro skip) (simp_all add: processMessage_def t_def Let_def)
  next
    case False
    with Inr have nf: "IsFetched t email (uidOf um n) = Inr False" by simp
    show ?thesis
    proof (cases "retr_ok e n")
      case False
      with nf show ?thesis
        by (intro retr) (simp_all add: processMessage_def t_def Let_def)
    next
      case r: True
      show ?thesis
      proof (cases "send_ok e n")
        case False
        with nf r show ?thesis
          by (intro send) (simp_all add: processMessage_def t_def Let_def)
      next
        case s: True
        show ?thesis
        proof (cases "MarkFetched t email (uidOf um n) (save_fault e n) (run_files st)")
          case (Inl p)
          with nf r s show ?thesis
            by (intro panic2 [of p]) (simp_all add: processMessage_def t_def Let_def)
        next
          case (Inr x)
          obtain err t' files' where x: "x = (err, t', files')" by (cases x)
          show ?thesis
          proof (cases err)
            case None
            show ?thesis
            proof (cases "dele_ok e n")
              case True
              with nf r s Inr x None show ?thesis
                by (intro full [of t' files']) (simp_all add: processMessage_def t_def Let_def)
            next
              case False
              with nf r s Inr x None show ?thesis
                by (intro dele [of t' files']) (simp_all add: processMessage_def t_def Let_def)
            qed
          next
            case (Some er)
            with nf r s Inr x show ?thesis
              by (intro mark [of er t' files']) (simp_all add: processMessage_def t_def Let_def)
          qed
        qed
      qed
    qed
  qed
qed

lemma ordered_from_append:
  "ordered_from seen (xs @ ys) = (ordered_from seen xs \<and> ordered_from (seen @ xs) ys)"
  by (induction xs arbitrary: seen) auto

lemma ordered_from_nth:
  "ordered_from seen tr \<Longrightarrow> i < length tr \<Longrightarrow> admissible (seen @ take i tr) (tr ! i)"
proof (induction tr arbitrary: seen i)
  case Nil
  then show ?case by simp
next
  case (Cons ev tr)
  show ?case
  proof (cases i)
    case 0
    with Cons.prems show ?thesis by simp
  next
    case (Suc j)
    with Cons.prems have "ordered_from (seen @ [ev]) tr" "j < length tr" by simp_all
    from Cons.IH [OF this] Suc show ?thesis by simp
  qed
qed

lemma processMessage_ordered:
  assumes "ordered_from [] (run_trace st)"
  shows "ordered_from [] (run_trace (processMessage e email um n st))"
  using assms
  by (cases e email um n st rule: processMessage_cases)
     (auto simp: ordered_from_append admissible_def)

lemma processMessages_ordered:
  "ordered_from [] (run_trace st) \<Longrightarrow>
     ordered_from [] (run_trace (processMessages e email um ns st))"
proof (induction ns arbitrary: st)
  case Nil
  then show ?case by simp
next
  case (Cons n ns)
  from processMessage_ordered [OF Cons.prems]
  have o: "ordered_from [] (run_trace (processMessage e email um n st))" .
  show ?case
    using o Cons.IH [OF o] by (simp add: Let_def)
qed

lemma processMailbox_ordered:
  "ordered_from [] (run_trace (processMailbox e yahoo t files))"
proof (cases "dial_ok e")
  case False
  then show ?thesis by (simp add: processMailbox_def admissible_def)
next
  case True
  have c: "ordered_from [] (run_trace (connected e yahoo st))"
    if "ordered_from [] (run_trace st)" for st
    using that
    by (auto simp: connected_def ordered_from_append admissible_def
          intro!: processMessages_ordered split: option.splits)
  have "ordered_from [] (run_trace (connected e yahoo
           \<lparr>run_tracker = t, run_files = files, run_fetched = 0, run_errors = 0,
            run_trace = [EvDial True], run_panic = None\<rparr>))"
    by (rule c) (simp add: admissible_def)
  with True show ?thesis
    by (simp add: processMailbox_def Let_def ordered_from_append admissible_def)
qed

lemma processMessage_sends:
  assumes "sends_as e (run_trace st)"
  shows "sends_as e (run_trace (processMessage e email um n st))"
  using assms
  by (cases e email um n st rule: processMessage_cases)
     (auto simp: sends_as_def)

lemma processMessages_sends:
  "sends_as e (run_trace st) \<Longrightarrow> sends_as e (run_trace (processMessages e email um ns st))"
proof (induction ns arbitrary: st)
  case Nil
  then show ?case by simp
next
  case (Cons n ns)
  from processMessage_sends [OF Cons.prems]
  have o: "sends_as e (run_trace (processMessage e email um n st))" .
  show ?case
    using o Cons.IH [OF o] by (simp add: Let_def)
qed

lemma processMailbox_sends:
  "sends_as e (run_trace (processMailbox e yahoo t files))"
proof (cases "dial_ok e")
  case False
  then show ?thesis by (simp add: processMailbox_def sends_as_def)
next
  case True
  have c: "sends_as e (run_trace (connected e yahoo st))"
    if "sends_as e (run_trace st)" for st
  proof (cases "login_ok e")
    case False
    with that show ?thesis by (simp add: connected_def sends_as_def)
  next
    case l: True
    show ?thesis
    proof (cases "uidl e")
      case None
      with l that show ?thesis by (simp add: connected_def sends_as_def)
    next
      case (Some al)
      have "sends_as e (run_trace (st\<lparr>run_trace := run_trace st @ [EvLogin True, EvUIDList True]\<rparr>))"
        using that by (simp add: sends_as_def)
      from processMessages_sends [OF this] l Some show ?thesis
        by (simp add: connected_def)
    qed
  qed
  have "sends_as e (run_trace (connected e yahoo
           \<lparr>run_tracker = t, run_files = files, run_fetched = 0, run_errors = 0,
            run_trace = [EvDial True], run_panic = None\<rparr>))"
    by (rule c) (simp add: sends_as_def)
  with True show ?thesis
    by (simp add: processMailbox_def Let_def sends_as_def)
qed

lemmas run_defs = processMailbox_def connected_def processMessage_def Let_def uidOf_def
  IsFetched_def MarkFetched_def mailboxEntry_def setFetched_def save_def os_WriteFile_def
  os_Rename_def emptyTracker_def exMailbox_def exEnv_def

text \<open>
  Claim C1. In the sequence of calls of one \<open>processMailbox\<close>, every call of
  \<open>MarkFetched\<close> for a message comes after a \<open>Send\<close> for that message that returned nil,
  and every call of \<open>Delete\<close> after a \<open>MarkFetched\<close> for that message that returned nil.
  When \<open>Send\<close> fails for a message, neither \<open>MarkFetched\<close> nor \<open>Delete\<close> is called for
  it anywhere in the run, and the loop goes on with the remaining message numbers with
  the error count one higher.
\<close>

theorem forward_before_record_before_delete:
  assumes "tr = run_trace (processMailbox e yahoo t files)"
  shows "(\<forall>i n u b. i < length tr \<and> tr ! i = EvMarkFetched n u b \<longrightarrow>
            EvSend n True \<in> set (take i tr))
       \<and> (\<forall>i n b. i < length tr \<and> tr ! i = EvDelete n b \<longrightarrow>
            (\<exists>u. EvMarkFetched n u (Inr True) \<in> set (take i tr)))
       \<and> (\<forall>n. \<not> send_ok e n \<longrightarrow>
            (\<forall>u b. EvMarkFetched n u b \<notin> set tr) \<and> (\<forall>b. EvDelete n b \<notin> set tr))
       \<and> (\<forall>email um n rest st.
            run_panic st = None \<and> IsFetched (run_tracker st) email (uidOf um n) = Inr False \<and>
            retr_ok e n \<and> \<not> send_ok e n \<longrightarrow>
            processMessages e email um (n # rest) st =
              processMessages e email um rest
                (st\<lparr>run_errors := run_errors st + 1,
                    run_trace := run_trace st
                      @ [EvIsFetched n (uidOf um n) (Inr False), EvRetrieve n True, EvSend n False]\<rparr>))"
proof -
  have o: "ordered_from [] tr"
    unfolding assms by (rule processMailbox_ordered)
  have s: "sends_as e tr"
    unfolding assms by (rule processMailbox_sends)
  have a: "EvSend n True \<in> set (take i tr)" if "i < length tr" "tr ! i = EvMarkFetched n u b" for i n u b
    using ordered_from_nth [OF o that(1)] that(2) by (simp add: admissible_def)
  have b: "\<exists>u. EvMarkFetched n u (Inr True) \<in> set (take i tr)" if "i < length tr" "tr ! i = EvDelete n b" for i n b
    using ordered_from_nth [OF o that(1)] that(2) by (simp add: admissible_def)
  have nosend: "EvSend n True \<notin> set tr" if "\<not> send_ok e n" for n
    using s that by (auto simp: sends_as_def)
  have c1: "EvMarkFetched n u b \<notin> set tr" if ns: "\<not> send_ok e n" for n u b
  proof
    assume "EvMarkFetched n u b \<in> set tr"
    then obtain i where i: "i < length tr" "tr ! i = EvMarkFetched n u b"
      by (auto simp: in_set_conv_nth)
    from a [OF i] have "EvSend n True \<in> set tr" by (rule in_set_takeD)
    with nosend [OF ns] show False by simp
  qed
  have c2: "EvDelete n b \<notin> set tr" if ns: "\<not> send_ok e n" for n b
  proof
    assume "EvDelete n b \<in> set tr"
    then obtain i where i: "i < length tr" "tr ! i = EvDelete n b"
      by (auto simp: in_set_conv_nth)
    from b [OF i] obtain u where "EvMarkFetched n u (Inr True) \<in> set tr"
      by (auto dest: in_set_takeD)
    with c1 [OF ns] show False by simp
  qed
  have d: "processMessages e email um (n # rest) st =
              processMessages e email um rest
                (st\<lparr>run_errors := run_errors st + 1,
                    run_trace := run_trace st
                      @ [EvIsFetched n (uidOf um n) (Inr False), EvRetrieve n True, EvSend n False]\<rparr>)"
    if "run_panic st = None" "IsFetched (run_tracker st) email (uidOf um n) = Inr False"
      "retr_ok e n" "\<not> send_ok e n"
    for email um n rest st
    using that by (simp add: processMessage_def Let_def)
  from a b c1 c2 d show ?thesis by blast
qed

theorem forward_before_record_before_delete_witness:
  "run_trace (processMailbox (exEnv\<lparr>send_ok := (\<lambda>n. n \<noteq> 1)\<rparr>) exMailbox
                (emptyTracker ''/data/state.json'') Map.empty)
     = [EvDial True, EvLogin True, EvUIDList True,
        EvIsFetched 1 ''abc'' (Inr False), EvRetrieve 1 True, EvSend 1 False,
        EvIsFetched 2 ''def'' (Inr False), EvRetrieve 2 True, EvSend 2 True,
        EvMarkFetched 2 ''def'' (Inr True), EvDelete 2 True, EvQuit]
   \<and> run_errors (processMailbox (exEnv\<lparr>send_ok := (\<lambda>n. n \<noteq> 1)\<rparr>) exMailbox
                (emptyTracker ''/data/state.json'') Map.empty) = 1
   \<and> run_fetched (processMailbox (exEnv\<lparr>send_ok := (\<lambda>n. n \<noteq> 1)\<rparr>) exMailbox
                (emptyTracker ''/data/state.json'') Map.empty) = 1
   \<and> EvSend 2 True \<in> set (take 9 (run_trace (processMailbox (exEnv\<lparr>send_ok := (\<lambda>n. n \<noteq> 1)\<rparr>)
                exMailbox (emptyTracker ''/data/state.json'') Map.empty)))
   \<and> EvMarkFetched 1 ''abc'' (Inr True)
       \<notin> set (run_trace (processMailbox (exEnv\<lparr>send_ok := (\<lambda>n. n \<noteq> 1)\<rparr>) exMailbox
                (emptyTracker ''/data/state.json'') Map.empty))"
proof -
  let ?r = "processMailbox (exEnv\<lparr>send_ok := (\<lambda>n. n \<noteq> 1)\<rparr>) exMailbox
                (emptyTracker ''/data/state.json'') Map.empty"
  have tr: "run_trace ?r
     = [EvDial True, EvLogin True, EvUIDList True,
        EvIsFetched 1 ''abc'' (Inr False), EvRetrieve 1 True, EvSend 1 False,
        EvIsFetched 2 ''def'' (Inr False), EvRetrieve 2 True, EvSend 2 True,
        EvMarkFetched 2 ''def'' (Inr True), EvDelete 2 True, EvQuit]"
    by (simp add: run_defs)
  have er: "run_errors ?r = 1"
    by (simp add: run_defs)
  have fe: "run_fetched ?r = 1"
    by (simp add: run_defs)
  note t = forward_before_record_before_delete [OF refl, of "exEnv\<lparr>send_ok := (\<lambda>n. n \<noteq> 1)\<rparr>"
      exMailbox "emptyTracker ''/data/state.json''" Map.empty]
  have i: "9 < length (run_trace ?r) \<and> run_trace ?r ! 9 = EvMarkFetched 2 ''def'' (Inr True)"
    by (simp add: tr)
  from t [THEN conjunct1, rule_format, OF i]
  have a: "EvSend 2 True \<in> set (take 9 (run_trace ?r))" .
  have ns: "\<not> send_ok (exEnv\<lparr>send_ok := (\<lambda>n. n \<noteq> 1)\<rparr>) 1"
    by simp
  from t [THEN conjunct2, THEN conjunct2, THEN conjunct1, rule_format, OF ns]
  have b: "EvMarkFetched 1 ''abc'' (Inr True) \<notin> set (run_trace ?r)"
    by blast
  from tr er fe a b show ?thesis by blast
qed

lemma Quit_sends:
  "\<not> deadline_fails c \<Longrightarrow> \<not> write_fails c \<Longrightarrow>
     sent (Quit c) = sent c @ ''QUIT'' @ crlf \<and> closed (Quit c)"
  by (simp add: Quit_def command_def readResponse_def Let_def split: option.splits prod.splits)

text \<open>
  Claim C6, as the code has it. \<open>client.Quit()\<close> is deferred as soon as the dial has
  succeeded, so it runs on every return. A mailbox aborted by a failed login or a failed
  listing makes the calls dial, login (and listing), then \<open>Quit\<close>; it makes no \<open>Delete\<close>
  call, so no deletion flag exists on that session, and it returns no fetched message and
  one error. After a successful dial the last call is always \<open>Quit\<close>; only a failed dial
  ends without it. \<open>Quit\<close> writes the \<open>QUIT\<close> command (when the deadline can be set and
  the write succeeds) and closes the connection; \<open>Close\<close>, which the worker never calls,
  closes it without writing.
\<close>

theorem aborted_mailbox_still_quits:
  assumes "r = processMailbox e yahoo t files"
  shows "(dial_ok e \<and> (\<not> login_ok e \<or> uidl e = None) \<longrightarrow>
            run_trace r = (if login_ok e then [EvDial True, EvLogin True, EvUIDList False, EvQuit]
                           else [EvDial True, EvLogin False, EvQuit]) \<and>
            (\<forall>n b. EvDelete n b \<notin> set (run_trace r)) \<and>
            run_fetched r = 0 \<and> run_errors r = 1)
       \<and> (dial_ok e \<longrightarrow> run_trace r \<noteq> [] \<and> last (run_trace r) = EvQuit)
       \<and> (\<not> dial_ok e \<longrightarrow> run_trace r = [EvDial False] \<and> run_fetched r = 0 \<and> run_errors r = 1)
       \<and> (\<not> deadline_fails c \<and> \<not> write_fails c \<longrightarrow>
            sent (Quit c) = sent c @ ''QUIT'' @ crlf \<and> closed (Quit c))
       \<and> sent (Close c) = sent c \<and> closed (Close c)"
proof -
  have a: "run_trace r = (if login_ok e then [EvDial True, EvLogin True, EvUIDList False, EvQuit]
                           else [EvDial True, EvLogin False, EvQuit]) \<and>
            (\<forall>n b. EvDelete n b \<notin> set (run_trace r)) \<and>
            run_fetched r = 0 \<and> run_errors r = 1"
    if "dial_ok e" "\<not> login_ok e \<or> uidl e = None"
    using that unfolding assms
    by (auto simp: processMailbox_def connected_def Let_def)
  have b: "run_trace r \<noteq> [] \<and> last (run_trace r) = EvQuit" if "dial_ok e"
    using that unfolding assms by (simp add: processMailbox_def Let_def)
  have c: "run_trace r = [EvDial False] \<and> run_fetched r = 0 \<and> run_errors r = 1" if "\<not> dial_ok e"
    using that unfolding assms by (simp add: processMailbox_def)
  have d: "sent (Close c) = sent c \<and> closed (Close c)"
    by (simp add: Close_def)
  from a b c d Quit_sends [of c] show ?thesis by blast
qed

theorem aborted_mailbox_still_quits_witness:
  "dial_ok (exEnv\<lparr>login_ok := False\<rparr>) \<and> \<not> login_ok (exEnv\<lparr>login_ok := False\<rparr>)
   \<and> run_trace (processMailbox (exEnv\<lparr>login_ok := False\<rparr>) exMailbox
                (emptyTracker ''/data/state.json'') Map.empty)
       = [EvDial True, EvLogin False, EvQuit]
   \<and> run_errors (processMailbox (exEnv\<lparr>login_ok := False\<rparr>) exMailbox
                (emptyTracker ''/data/state.json'') Map.empty) = 1
   \<and> run_trace (processMailbox (exEnv\<lparr>dial_ok := False\<rparr>) exMailbox
                (emptyTracker ''/data/state.json'') Map.empty)
       = [EvDial False]
   \<and> sent (Quit \<lparr>inbound = ''+OK bye'' @ crlf, sent = [],
                  deadline_fails = False, write_fails = False, closed = False\<rparr>)
       = ''QUIT'' @ crlf"
proof -
  have d: "dial_ok (exEnv\<lparr>login_ok := False\<rparr>)" "\<not> login_ok (exEnv\<lparr>login_ok := False\<rparr>)"
    "\<not> dial_ok (exEnv\<lparr>dial_ok := False\<rparr>)"
    by (simp_all add: exEnv_def)
  note t1 = aborted_mailbox_still_quits [OF refl, of "exEnv\<lparr>login_ok := False\<rparr>" exMailbox
      "emptyTracker ''/data/state.json''" Map.empty
      "\<lparr>inbound = ''+OK bye'' @ crlf, sent = [],
                  deadline_fails = False, write_fails = False, closed = False\<rparr>"]
  note t2 = aborted_mailbox_still_quits [OF refl, of "exEnv\<lparr>dial_ok := False\<rparr>" exMailbox
      "emptyTracker ''/data/state.json''" Map.empty
      "\<lparr>inbound = ''+OK bye'' @ crlf, sent = [],
                  deadline_fails = False, write_fails = False, closed = False\<rparr>"]
  from t1 t2 d show ?thesis by simp
qed

text \<open>
  Claim C6 as stated fails: with a failed login, and with a failed listing, the calls of
  the mailbox end with \<open>Quit\<close>, and \<open>Quit\<close> puts \<open>QUIT\<close> on the wire before closing.
\<close>

theorem aborted_mailbox_still_quits_counterexample:
  "run_trace (processMailbox (exEnv\<lparr>login_ok := False\<rparr>) exMailbox
                (emptyTracker ''/data/state.json'') Map.empty)
     = [EvDial True, EvLogin False, EvQuit]
   \<and> run_trace (processMailbox (exEnv\<lparr>uidl := None\<rparr>) exMailbox
                (emptyTracker ''/data/state.json'') Map.empty)
     = [EvDial True, EvLogin True, EvUIDList False, EvQuit]
   \<and> sent (Quit \<lparr>inbound = ''+OK bye'' @ crlf, sent = ''USER user@yahoo.com'' @ crlf,
                  deadline_fails = False, write_fails = False, closed = False\<rparr>)
     = ''USER user@yahoo.com'' @ crlf @ ''QUIT'' @ crlf"
  by (simp add: run_defs Quit_def command_def readResponse_def split: option.splits prod.splits)

































end
